theory Spec2Isabelle
  imports
    Main
    "HOL-Library.Char_ord"
    "HOL-Library.List_Lexorder"
    "HOL-Library.Option_ord"
    "HOL-Library.Product_Lexorder"
begin

section \<open>Machine integers, exceptions and the C++ library functions the code calls\<close>

text \<open>
  \<open>int32_t\<close> values are modelled as \<open>int\<close>. \<open>INT32_MIN\<close> and \<open>INT32_MAX\<close> bound the
  representable range. Signed overflow is undefined in C++; where the source can reach it
  (\<open>unique_id++\<close> in \<open>Pond::get_unique_user_id\<close>) the two's complement result is written out
  with \<open>wrap32\<close>. The feed pagination arithmetic is written on \<open>int\<close> as it stands; the
  theorems about it carry \<open>int32_redraw_safe\<close> or \<open>int32_safe\<close>, which keep every
  intermediate value in range.
\<close>

definition INT32_MAX :: int where
  "INT32_MAX = 2147483647"

definition INT32_MIN :: int where
  "INT32_MIN = - 2147483648"

definition wrap32 :: "int \<Rightarrow> int" where
  "wrap32 x = (x + 2147483648) mod 4294967296 - 2147483648"

text \<open>The exceptions of the standard library that the modelled code can raise and never catches.\<close>

datatype cpp_exception = Out_of_range | Invalid_argument | Length_error

definition isspace :: "char \<Rightarrow> bool" where
  "isspace c = (c \<in> set [CHR 0x20, CHR 0x09, CHR 0x0A, CHR 0x0B, CHR 0x0C, CHR 0x0D])"

definition isdigit :: "char \<Rightarrow> bool" where
  "isdigit c = (48 \<le> (of_char c :: nat) \<and> (of_char c :: nat) \<le> 57)"

text \<open>The value of a string of decimal digits, most significant digit first.\<close>

definition decimal :: "string \<Rightarrow> int" where
  "decimal ds = foldl (\<lambda>a c. 10 * a + (int (of_char c) - 48)) 0 ds"

text \<open>
  \<open>std::stoi\<close> in base 10: skip leading white space, read an optional sign and the longest
  run of digits; \<open>std::invalid_argument\<close> when there is no digit, \<open>std::out_of_range\<close> when
  the value does not fit an \<open>int\<close>.
\<close>

definition stoi :: "string \<Rightarrow> cpp_exception + int" where
  "stoi s =
     (let s1 = dropWhile isspace s;
          neg = (s1 \<noteq> [] \<and> hd s1 = CHR ''-'');
          s2 = (if s1 \<noteq> [] \<and> (hd s1 = CHR ''-'' \<or> hd s1 = CHR ''+'') then tl s1 else s1);
          ds = takeWhile isdigit s2;
          v = (if neg then - decimal ds else decimal ds)
      in if ds = [] then Inl Invalid_argument
         else if v < INT32_MIN \<or> INT32_MAX < v then Inl Out_of_range
         else Inr v)"

text \<open>\<open>operator<<\<close> of an output stream on an integer: its decimal digits, with a sign when negative.\<close>

function string_of_nat :: "nat \<Rightarrow> string" where
  "string_of_nat n =
     (if n < 10 then [char_of (48 + n)]
      else string_of_nat (n div 10) @ [char_of (48 + n mod 10)])"
  by pat_completeness auto
termination
  by (relation "measure (\<lambda>n. n)") auto

declare string_of_nat.simps [simp del]

definition string_of_int :: "int \<Rightarrow> string" where
  "string_of_int k = (if k < 0 then CHR ''-'' # string_of_nat (nat (- k)) else string_of_nat (nat k))"

section \<open>The feed window: \<open>Quacker::processFeed\<close> and the selection in \<open>Quacker::mainPage\<close>\<close>

text \<open>
  \<open>Quacker::extractQuackID\<close>. \<open>quackString.find(prefix) == 0\<close> holds exactly when the string
  starts with \<open>"Quack Id: "\<close>. The regular expression \<open>^Quack Id:\s+(\d+)\<close> then needs, after the
  colon, a run of white space (not empty, since the prefix ends in a blank) followed by at
  least one digit; the group is the longest run of digits, which goes to \<open>std::stoi\<close>.
\<close>

definition extractQuackID :: "string \<Rightarrow> cpp_exception + int" where
  "extractQuackID quackString =
     (if take 10 quackString = ''Quack Id: '' then
        (let digits = takeWhile isdigit (dropWhile isspace (drop 9 quackString))
         in if digits \<noteq> [] then stoi digits else Inr (- 1))
      else Inr (- 1))"

text \<open>
  The state that \<open>mainPage\<close> and \<open>processFeed\<close> share: the locals \<open>FeedDisplayCount\<close>, \<open>error\<close>
  and \<open>i\<close> of \<open>mainPage\<close> (passed by reference; \<open>i\<close> is the field \<open>row_i\<close>) and the member
  \<open>feed_quack_ids\<close>.
\<close>

record page =
  FeedDisplayCount :: int
  error :: string
  row_i :: int
  feed_quack_ids :: "int list"

definition no_more_quacks :: string where
  "no_more_quacks = [CHR 0x0A] @ ''You Have No More Quacks Left To Display.'' @ [CHR 0x0A]"

definition already_none :: string where
  "already_none = [CHR 0x0A] @ ''You Are Already Not Displaying Any Quacks.'' @ [CHR 0x0A]"

text \<open>
  The display loop, shared by both places of \<open>processFeed\<close> that run it (\<open>bound\<close> is
  \<open>maxQuacks\<close> in the first and \<open>displayCount\<close> in the second). Each turn records the quack
  id of \<open>feed[i-1]\<close>, increments \<open>i\<close> and, unless \<open>bound - 5 >= i - 1\<close>, writes the row
  number \<open>i - 1\<close> and the text \<open>feed[i-2]\<close>. The rows written to \<open>oss\<close> are kept as pairs;
  \<open>oss_str\<close> is the text they stand for. A read outside the vector has no defined result;
  the model returns \<open>Undefined\<close> there.
\<close>

datatype 'a outcome = Done 'a | Throws cpp_exception | Undefined

function display_loop ::
  "string list \<Rightarrow> int \<Rightarrow> int \<Rightarrow> int list \<Rightarrow> (int \<times> string) list
     \<Rightarrow> (int \<times> int list \<times> (int \<times> string) list) outcome" where
  "display_loop feed bound i ids oss =
     (if i - 1 < bound then
        (if i - 1 < 0 \<or> int (length feed) \<le> i - 1 then Undefined
         else
           (case extractQuackID (feed ! nat (i - 1)) of
              Inl e \<Rightarrow> Throws e
            | Inr q \<Rightarrow>
                (if bound - 5 \<ge> (i + 1) - 1 then display_loop feed bound (i + 1) (ids @ [q]) oss
                 else display_loop feed bound (i + 1) (ids @ [q])
                        (oss @ [((i + 1) - 1, feed ! nat ((i + 1) - 2))]))))
      else Done (i, ids, oss))"
  by pat_completeness auto
termination
  by (relation "measure (\<lambda>(feed, bound, i, ids, oss). nat (bound - (i - 1)))") auto

declare display_loop.simps [simp del]

definition oss_row :: "int \<times> string \<Rightarrow> string" where
  "oss_row r =
     string_of_int (fst r) @ ''.'' @ [CHR 0x0A] @ snd r @ [CHR 0x0A] @ replicate 100 CHR ''-'' @ [CHR 0x0A]"

definition oss_str :: "(int \<times> string) list \<Rightarrow> string" where
  "oss_str rows = concat (map oss_row rows)"

text \<open>
  Running the loop from the current state and storing what it leaves in \<open>i\<close> and
  \<open>feed_quack_ids\<close>.
\<close>

definition display :: "string list \<Rightarrow> int \<Rightarrow> page \<Rightarrow> ((int \<times> string) list \<times> page) outcome" where
  "display feed bound st =
     (case display_loop feed bound (row_i st) (feed_quack_ids st) [] of
        Done (i', ids', oss) \<Rightarrow> Done (oss, st\<lparr>row_i := i', feed_quack_ids := ids'\<rparr>)
      | Throws e \<Rightarrow> Throws e
      | Undefined \<Rightarrow> Undefined)"

text \<open>
  \<open>Quacker::processFeed\<close>, with the result of \<open>pond.getFeed(user_id)\<close> as the argument \<open>feed\<close>.
  \<open>processFeed_rows\<close> returns the rows written to the stream and the updated state;
  \<open>processFeed\<close> returns the string. Cases 2 and 3 of the source have empty bodies and
  continue, like the end of the chain, with the loop bounded by \<open>displayCount\<close>.
\<close>

definition processFeed_rows :: "string list \<Rightarrow> page \<Rightarrow> ((int \<times> string) list \<times> page) outcome" where
  "processFeed_rows feed st =
     (let maxQuacks = int (length feed);
          st1 = st\<lparr>row_i := 1, feed_quack_ids := []\<rparr>;
          count = FeedDisplayCount st1
      in if count \<ge> maxQuacks + 5 then
           display feed maxQuacks
             (st1\<lparr>error := no_more_quacks, FeedDisplayCount := max 0 (count - 5)\<rparr>)
         else if count \<ge> maxQuacks \<and> count \<le> maxQuacks + 4 then
           display feed (min count maxQuacks) st1
         else if count < maxQuacks \<and> count > 0 then
           display feed (min count maxQuacks) st1
         else if count \<le> 0 then
           Done ([], st1\<lparr>error := (if count \<noteq> 0 then already_none else error st1),
                          FeedDisplayCount := 0\<rparr>)
         else
           display feed (min count maxQuacks) st1)"

definition processFeed :: "string list \<Rightarrow> page \<Rightarrow> (string \<times> page) outcome" where
  "processFeed feed st =
     (case processFeed_rows feed st of
        Done (oss, st') \<Rightarrow> Done (oss_str oss, st')
      | Throws e \<Rightarrow> Throws e
      | Undefined \<Rightarrow> Undefined)"





text \<open>
  Menu entry 5 of \<open>mainPage\<close>, for one line of input. The line must match
  \<open>^[1-9]\d*$\<close>; \<open>selection\<close> is \<open>std::stoi(input) - 1\<close> and is refused when it is above
  \<open>i - 2\<close> or below \<open>i - 6\<close>; otherwise \<open>feed_quack_ids[selection]\<close> goes to
  \<open>pond.getQuackFromID\<close> and \<open>quackPage\<close>. A refused line makes the source ask again.
\<close>

datatype selection = Return_to_menu | Input_invalid | Quack_page int

definition positive_integer_regex :: "string \<Rightarrow> bool" where
  "positive_integer_regex input =
     (input \<noteq> [] \<and> hd input \<in> set ''123456789'' \<and> list_all isdigit (tl input))"

definition select_tweet :: "page \<Rightarrow> string \<Rightarrow> selection outcome" where
  "select_tweet st input =
     (if input = [] then Done Return_to_menu
      else if \<not> positive_integer_regex input then Done Input_invalid
      else
        (case stoi input of
           Inl e \<Rightarrow> Throws e
         | Inr n \<Rightarrow>
             (let selection = n - 1
              in if selection > row_i st - 2 \<or> selection < row_i st - 6 then Done Input_invalid
                 else if selection < 0 \<or> int (length (feed_quack_ids st)) \<le> selection then Undefined
                 else Done (Quack_page (feed_quack_ids st ! nat selection)))))"

text \<open>
  The inputs on which no \<open>int32_t\<close> computed by one redraw and the selection after it
  leaves its range.
\<close>

definition int32_redraw_safe :: "string list \<Rightarrow> page \<Rightarrow> bool" where
  "int32_redraw_safe feed st =
     (int (length feed) + 5 \<le> INT32_MAX
      \<and> INT32_MIN \<le> FeedDisplayCount st \<and> FeedDisplayCount st \<le> INT32_MAX)"


text \<open>The feeds in which every entry has a quack id that \<open>extractQuackID\<close> can return.\<close>

definition feed_ids_fit :: "string list \<Rightarrow> bool" where
  "feed_ids_fit feed = list_all (\<lambda>s. \<not> isl (extractQuackID s)) feed"


text \<open>The state in which \<open>mainPage\<close> starts, for a given \<open>FeedDisplayCount\<close> (5 in the source).\<close>

definition page_with :: "int \<Rightarrow> page" where
  "page_with n = \<lparr>FeedDisplayCount = n, error = [], row_i = 1, feed_quack_ids = []\<rparr>"

text \<open>A feed of twelve entries, with the quack ids 101 to 112, for the examples.\<close>

definition sample_feed :: "string list" where
  "sample_feed = map (\<lambda>k. ''Quack Id: '' @ string_of_int k @ '', Author: a'') [101 .. 112]"

text \<open>The row numbers that a redraw writes.\<close>

definition shown_positions :: "string list \<Rightarrow> page \<Rightarrow> int list" where
  "shown_positions feed st =
     (case processFeed_rows feed st of Done (rows, st') \<Rightarrow> map fst rows | Throws e \<Rightarrow> [] | Undefined \<Rightarrow> [])"

text \<open>
  The specification's visible slice, in its words: the 1-based positions in
  \<open>(requestedSize - pageStep, min(requestedSize, totalCount)]\<close>, with \<open>pageStep = 5\<close>.
\<close>

definition spec_visible_positions :: "int \<Rightarrow> int \<Rightarrow> int list" where
  "spec_visible_positions requestedSize totalCount =
     filter (\<lambda>k. requestedSize - 5 < k \<and> k \<le> min requestedSize totalCount) [1 .. totalCount]"

section \<open>The identifier allocator: \<open>Pond::get_unique_user_id\<close>\<close>

text \<open>
  The tables of the database, with the columns the modelled statements read. Integer
  columns hold integers; the text columns may hold NULL (\<open>None\<close>), which the source tests
  for when it reads them.
\<close>

record user =
  usr :: int
  uname :: "string option"

record tweet =
  tid :: int
  writer_id :: int
  ttext :: "string option"
  tdate :: "string option"
  ttime :: "string option"

record retweet =
  rtid :: int
  retweeter_id :: int
  spam :: int
  rdate :: "string option"

record follow =
  flwer :: int
  flwee :: int

record database =
  users :: "user list"
  tweets :: "tweet list"
  retweets :: "retweet list"
  follows :: "follow list"

text \<open>
  What a statement yields: \<open>sqlite3_prepare_v2\<close> may fail, otherwise \<open>sqlite3_step\<close> hands
  over the rows in order.
\<close>

datatype 'a statement = Prepare_failed | Rows "'a list"

text \<open>\<open>sqlite3_column_int\<close> returns the low 32 bits of the stored integer.\<close>

definition sqlite3_column_int :: "int \<Rightarrow> int" where
  "sqlite3_column_int v = wrap32 v"

text \<open>\<open>SELECT usr FROM users WHERE usr >= 0 ORDER BY usr ASC\<close>\<close>

definition select_usr_nonneg_asc :: "database \<Rightarrow> int list" where
  "select_usr_nonneg_asc db = sort (filter (\<lambda>u. u \<ge> 0) (map usr (users db)))"

text \<open>\<open>SELECT usr FROM users WHERE usr < 0 ORDER BY usr DESC\<close>\<close>

definition select_usr_neg_desc :: "database \<Rightarrow> int list" where
  "select_usr_neg_desc db = rev (sort (filter (\<lambda>u. u < 0) (map usr (users db))))"

text \<open>
  The first loop: the remaining rows and \<open>unique_id\<close> go in, \<open>unique_id\<close> and \<open>found\<close>
  come out. \<open>unique_id++\<close> is written with its wrap-around.
\<close>

fun scan_up :: "int list \<Rightarrow> int \<Rightarrow> int \<times> bool" where
  "scan_up [] unique_id = (unique_id, False)"
| "scan_up (row # rows) unique_id =
     (let current_id = sqlite3_column_int row
      in if current_id = unique_id then scan_up rows (wrap32 (unique_id + 1))
         else if current_id > unique_id then (unique_id, True)
         else scan_up rows unique_id)"

text \<open>The second loop, over the negative identifiers.\<close>

fun scan_down :: "int list \<Rightarrow> int \<Rightarrow> int" where
  "scan_down [] unique_id = unique_id"
| "scan_down (row # rows) unique_id =
     (let current_id = sqlite3_column_int row
      in if current_id = unique_id then scan_down rows (wrap32 (unique_id - 1))
         else if current_id < unique_id then unique_id
         else scan_down rows unique_id)"

text \<open>
  \<open>Pond::get_unique_user_id\<close>: the returned flag and the value left in the reference
  parameter \<open>unique_id\<close>. The arguments are the two statements.
\<close>

definition get_unique_user_id :: "int statement \<Rightarrow> int statement \<Rightarrow> bool \<times> int" where
  "get_unique_user_id query query_neg =
     (case query of
        Prepare_failed \<Rightarrow> (False, 1)
      | Rows rows \<Rightarrow>
          (let (unique_id, found) = scan_up rows 1
           in if \<not> found \<and> unique_id > INT32_MAX then
                (case query_neg of
                   Prepare_failed \<Rightarrow> (False, - 1)
                 | Rows rows_neg \<Rightarrow> (True, scan_down rows_neg (- 1)))
              else (True, unique_id)))"

text \<open>A database that holds only users, with the given identifiers, for the examples.\<close>

definition db_with_users :: "int list \<Rightarrow> database" where
  "db_with_users ids =
     \<lparr>users = map (\<lambda>k. \<lparr>usr = k, uname = None\<rparr>) ids, tweets = [], retweets = [], follows = []\<rparr>"

text \<open>The allocation on a database whose statements can be prepared.\<close>

definition allocate :: "database \<Rightarrow> bool \<times> int" where
  "allocate db =
     get_unique_user_id (Rows (select_usr_nonneg_asc db)) (Rows (select_usr_neg_desc db))"

section \<open>The feed: \<open>Pond::getFeed\<close>\<close>

text \<open>A row of the feed statement, with its seven columns.\<close>

record feed_row =
  e_type :: string
  e_tid :: int
  e_name :: "string option"
  e_writer_id :: int
  e_date :: "string option"
  e_time :: "string option"
  e_text :: "string option"

text \<open>
  The first \<open>SELECT\<close>: tweets joined with the follows and the users of their writers, for
  the follower \<open>user_id\<close>.
\<close>

definition select_tweets :: "database \<Rightarrow> int \<Rightarrow> feed_row list" where
  "select_tweets db user_id =
     [\<lparr>e_type = ''tweet'', e_tid = tid t1, e_name = uname u1, e_writer_id = writer_id t1,
        e_date = tdate t1, e_time = ttime t1, e_text = ttext t1\<rparr>.
      t1 \<leftarrow> tweets db, f1 \<leftarrow> follows db, writer_id t1 = flwee f1,
      u1 \<leftarrow> users db, writer_id t1 = usr u1, flwer f1 = user_id]"

text \<open>
  The second \<open>SELECT\<close>: retweets joined with their tweets and with the follows and the
  users of the retweeters, for the follower \<open>user_id\<close>, where \<open>r.spam = 0\<close>. The date is
  \<open>r.rdate\<close>, the time \<open>t2.ttime\<close>.
\<close>

definition select_retweets :: "database \<Rightarrow> int \<Rightarrow> feed_row list" where
  "select_retweets db user_id =
     [\<lparr>e_type = ''retweet'', e_tid = tid t2, e_name = uname u2, e_writer_id = retweeter_id r,
        e_date = rdate r, e_time = ttime t2, e_text = ttext t2\<rparr>.
      r \<leftarrow> retweets db, t2 \<leftarrow> tweets db, tid t2 = rtid r,
      f2 \<leftarrow> follows db, retweeter_id r = flwee f2,
      u2 \<leftarrow> users db, retweeter_id r = usr u2, flwer f2 = user_id \<and> spam r = 0]"

text \<open>
  \<open>ORDER BY date DESC, time DESC\<close>. Text compares byte by byte and NULL is below every
  text, so it comes last. SQL leaves the order of rows with equal keys open; the model
  takes one such order, and no theorem below depends on which.
\<close>

definition order_by_date_time_desc :: "feed_row list \<Rightarrow> feed_row list" where
  "order_by_date_time_desc rows = rev (sort_key (\<lambda>e. (e_date e, e_time e)) rows)"

text \<open>The whole statement: \<open>UNION\<close> keeps one copy of each row.\<close>

definition feed_statement :: "database \<Rightarrow> int \<Rightarrow> feed_row list" where
  "feed_statement db user_id =
     order_by_date_time_desc (remdups (select_tweets db user_id @ select_retweets db user_id))"

text \<open>
  The text built for one row. \<open>std::string(80 - oss.str().length(), ' ')\<close> computes in
  \<open>size_t\<close>: a name longer than 80 bytes asks for more than \<open>max_size()\<close> blanks and raises
  \<open>std::length_error\<close>.
\<close>

definition feed_line :: "feed_row \<Rightarrow> string outcome" where
  "feed_line e =
     (let username = (case e_name e of Some n \<Rightarrow> n | None \<Rightarrow> ''Unknown'')
      in if length username > 80 then Throws Length_error
         else Done (username @ replicate (80 - length username) CHR '' ''
                @ (case e_date e of Some d \<Rightarrow> d | None \<Rightarrow> ''Unknown'')
                @ '' '' @ (case e_time e of Some t \<Rightarrow> t | None \<Rightarrow> ''Unknown'')
                @ [CHR 0x0A, CHR 0x0A]
                @ (case e_text e of Some x \<Rightarrow> x | None \<Rightarrow> [])
                @ [CHR 0x0A]))"

fun feed_lines :: "feed_row list \<Rightarrow> string list \<Rightarrow> string list outcome" where
  "feed_lines [] feed = Done feed"
| "feed_lines (e # es) feed =
     (case feed_line e of
        Done line \<Rightarrow> feed_lines es (feed @ [line])
      | Throws x \<Rightarrow> Throws x
      | Undefined \<Rightarrow> Undefined)"

text \<open>\<open>Pond::getFeed\<close>: an empty feed when the statement cannot be prepared.\<close>

definition getFeed :: "feed_row statement \<Rightarrow> string list outcome" where
  "getFeed stmt = (case stmt of Prepare_failed \<Rightarrow> Done [] | Rows rows \<Rightarrow> feed_lines rows [])"

text \<open>The rows whose name, or \<open>"Unknown"\<close> in its place, leaves room for the padding.\<close>

definition name_fits :: "feed_row \<Rightarrow> bool" where
  "name_fits e = (length (case e_name e of Some n \<Rightarrow> n | None \<Rightarrow> ''Unknown'') \<le> 80)"

text \<open>\<open>Pond::getFeed(user_id)\<close> on a database whose statement can be prepared.\<close>

definition feed_of :: "database \<Rightarrow> int \<Rightarrow> string list outcome" where
  "feed_of db user_id = getFeed (Rows (feed_statement db user_id))"

text \<open>
  \<open>Quacker::processFeed\<close> from its first line on: \<open>feed\<close> is what \<open>pond.getFeed(user_id)\<close>
  returns on the database.
\<close>

definition processFeed_from :: "database \<Rightarrow> int \<Rightarrow> page \<Rightarrow> ((int \<times> string) list \<times> page) outcome" where
  "processFeed_from db user_id st =
     (case feed_of db user_id of
        Done feed \<Rightarrow> processFeed_rows feed st
      | Throws e \<Rightarrow> Throws e
      | Undefined \<Rightarrow> Undefined)"

text \<open>
  One turn of the loop of \<open>mainPage\<close> with menu entry 5: the redraw, then one line of input.
\<close>

definition select_after_redraw :: "database \<Rightarrow> int \<Rightarrow> page \<Rightarrow> string \<Rightarrow> selection outcome" where
  "select_after_redraw db user_id st input =
     (case processFeed_from db user_id st of
        Done (oss, st') \<Rightarrow> select_tweet st' input
      | Throws e \<Rightarrow> Throws e
      | Undefined \<Rightarrow> Undefined)"

text \<open>
  A database for the examples. User 1 follows users 2 and 3. User 2 wrote tweet 10 on
  2024-01-02 at 10:00:00. User 3 retweeted it on 2024-01-03; user 2 retweeted it on
  2024-01-04, flagged as spam.
\<close>

definition sample_db :: database where
  "sample_db =
     \<lparr>users = [\<lparr>usr = 1, uname = Some ''ann''\<rparr>, \<lparr>usr = 2, uname = Some ''bob''\<rparr>,
               \<lparr>usr = 3, uname = Some ''cy''\<rparr>],
      tweets = [\<lparr>tid = 10, writer_id = 2, ttext = Some ''hello'', tdate = Some ''2024-01-02'',
                 ttime = Some ''10:00:00''\<rparr>],
      retweets = [\<lparr>rtid = 10, retweeter_id = 3, spam = 0, rdate = Some ''2024-01-03''\<rparr>,
                  \<lparr>rtid = 10, retweeter_id = 2, spam = 1, rdate = Some ''2024-01-04''\<rparr>],
      follows = [\<lparr>flwer = 1, flwee = 2\<rparr>, \<lparr>flwer = 1, flwee = 3\<rparr>]\<rparr>"

text \<open>The same database with another time of day on the tweet; the retweets are unchanged.\<close>

definition sample_db_later :: database where
  "sample_db_later =
     sample_db\<lparr>tweets := [\<lparr>tid = 10, writer_id = 2, ttext = Some ''hello'',
                              tdate = Some ''2024-01-02'', ttime = Some ''23:59:59''\<rparr>]\<rparr>"

text \<open>The two rows of the feed of user 1 on \<open>sample_db\<close>.\<close>

definition sample_retweet_row :: feed_row where
  "sample_retweet_row =
     \<lparr>e_type = ''retweet'', e_tid = 10, e_name = Some ''cy'', e_writer_id = 3,
      e_date = Some ''2024-01-03'', e_time = Some ''10:00:00'', e_text = Some ''hello''\<rparr>"

definition sample_tweet_row :: feed_row where
  "sample_tweet_row =
     \<lparr>e_type = ''tweet'', e_tid = 10, e_name = Some ''bob'', e_writer_id = 2,
      e_date = Some ''2024-01-02'', e_time = Some ''10:00:00'', e_text = Some ''hello''\<rparr>"

text \<open>The texts that \<open>Pond::getFeed\<close> builds for these two rows.\<close>

definition sample_retweet_line :: string where
  "sample_retweet_line =
     ''cy'' @ replicate 78 CHR '' '' @ ''2024-01-03 10:00:00'' @ [CHR 0x0A, CHR 0x0A]
       @ ''hello'' @ [CHR 0x0A]"

definition sample_tweet_line :: string where
  "sample_tweet_line =
     ''bob'' @ replicate 77 CHR '' '' @ ''2024-01-02 10:00:00'' @ [CHR 0x0A, CHR 0x0A]
       @ ''hello'' @ [CHR 0x0A]"

section \<open>The timestamp formatters: \<open>Pond::_getTime\<close> and \<open>Pond::_getDate\<close>\<close>

text \<open>The fields of \<open>std::tm\<close> that the two formats read.\<close>

record tm =
  tm_sec :: int
  tm_min :: int
  tm_hour :: int
  tm_mday :: int
  tm_mon :: int
  tm_year :: int

text \<open>
  What \<open>std::gmtime\<close> returns for a time that is not before 1970: the fields in their
  ranges (a leap second allows 60) and a year from 1970 on.
\<close>

definition valid_tm :: "tm \<Rightarrow> bool" where
  "valid_tm t =
     (0 \<le> tm_sec t \<and> tm_sec t \<le> 60 \<and> 0 \<le> tm_min t \<and> tm_min t \<le> 59
      \<and> 0 \<le> tm_hour t \<and> tm_hour t \<le> 23 \<and> 1 \<le> tm_mday t \<and> tm_mday t \<le> 31
      \<and> 0 \<le> tm_mon t \<and> tm_mon t \<le> 11 \<and> 70 \<le> tm_year t)"

text \<open>A number in two digits with a leading zero, as \<open>%H\<close>, \<open>%M\<close>, \<open>%S\<close>, \<open>%m\<close> and \<open>%d\<close> write it.\<close>

definition two_digits :: "int \<Rightarrow> string" where
  "two_digits n = (if 0 \<le> n \<and> n < 10 then CHR ''0'' # string_of_int n else string_of_int n)"

text \<open>The expansion of \<open>"%H:%M:%S"\<close>.\<close>

definition format_HMS :: "tm \<Rightarrow> string" where
  "format_HMS t = two_digits (tm_hour t) @ '':'' @ two_digits (tm_min t) @ '':'' @ two_digits (tm_sec t)"

text \<open>The expansion of \<open>"%F"\<close>, which is \<open>"%Y-%m-%d"\<close>.\<close>

definition format_F :: "tm \<Rightarrow> string" where
  "format_F t =
     string_of_int (1900 + tm_year t) @ ''-'' @ two_digits (tm_mon t + 1) @ ''-'' @ two_digits (tm_mday t)"

text \<open>
  A character buffer after \<open>std::strftime\<close>. The C standard: when the expansion with its
  terminating null fits \<open>maxsize\<close> it is written; otherwise 0 is returned and the contents
  of the array are indeterminate.
\<close>

datatype buffer = Written string | Indeterminate

definition strftime :: "nat \<Rightarrow> string \<Rightarrow> buffer" where
  "strftime maxsize expansion =
     (if length expansion + 1 \<le> maxsize then Written expansion else Indeterminate)"

text \<open>
  \<open>Pond::_getTime\<close> and \<open>Pond::_getDate\<close> (named without the underscore here) on the
  broken-down time \<open>gmt\<close>. The buffer \<open>t\<close> is a \<open>char*\<close>, so \<open>sizeof(t)\<close> is the size of
  a pointer, the parameter \<open>sizeof_ptr\<close> (8 on a 64-bit target, 4 on a 32-bit one).
\<close>

definition getTime :: "nat \<Rightarrow> tm \<Rightarrow> buffer" where
  "getTime sizeof_ptr gmt = strftime sizeof_ptr (format_HMS gmt)"

definition getDate :: "nat \<Rightarrow> tm \<Rightarrow> buffer" where
  "getDate sizeof_ptr gmt = strftime sizeof_ptr (format_F gmt)"

text \<open>
  The values that \<open>Pond::addPost\<close> binds to its statement (\<open>tid\<close>, \<open>writer_id\<close>, \<open>text\<close>,
  \<open>tdate\<close>, \<open>ttime\<close>) and those that \<open>Pond::follow\<close> binds (\<open>flwer\<close>, \<open>flwee\<close>,
  \<open>start_date\<close>).
\<close>

definition addPost_binds :: "nat \<Rightarrow> tm \<Rightarrow> int \<Rightarrow> int \<Rightarrow> string \<Rightarrow> int \<times> int \<times> string \<times> buffer \<times> buffer" where
  "addPost_binds sizeof_ptr gmt tweet_id user_id quack_text =
     (tweet_id, user_id, quack_text, getDate sizeof_ptr gmt, getTime sizeof_ptr gmt)"

definition follow_binds :: "nat \<Rightarrow> tm \<Rightarrow> int \<Rightarrow> int \<Rightarrow> int \<times> int \<times> buffer" where
  "follow_binds sizeof_ptr gmt user_id follow_id = (user_id, follow_id, getDate sizeof_ptr gmt)"

text \<open>The broken-down time 2024-11-05 12:34:56, for the examples.\<close>

definition sample_tm :: tm where
  "sample_tm = \<lparr>tm_sec = 56, tm_min = 34, tm_hour = 12, tm_mday = 5, tm_mon = 10, tm_year = 124\<rparr>"

section \<open>Properties of the feed window\<close>

text \<open>
  What the display loop leaves when it ends: \<open>i\<close> is one past the bound, one quack id was
  recorded for every position from \<open>i - 1\<close> below the bound, and the rows written are those
  of the last five positions up to the bound.
\<close>

lemma display_loop_Done:
  "display_loop feed bound i ids oss = Done (i', ids', oss') \<Longrightarrow> 1 \<le> i \<Longrightarrow>
     i' = max i (bound + 1)
     \<and> map Inr ids' = map Inr ids @ map (\<lambda>k. extractQuackID (feed ! nat k)) [i - 1 .. bound - 1]
     \<and> oss' = oss @ map (\<lambda>k. (k, feed ! nat (k - 1))) [max i (bound - 4) .. bound]"
proof (induction feed bound i ids oss rule: display_loop.induct)
  case (1 feed bound i ids oss)
  show ?case
  proof (cases "i - 1 < bound")
    case False
    with "1.prems" show ?thesis by (simp add: display_loop.simps[of feed bound i])
  next
    case True
    note run = True
    from "1.prems" run have inr: "\<not> (i - 1 < 0 \<or> int (length feed) \<le> i - 1)"
      by (auto simp: display_loop.simps[of feed bound i] split: if_splits)
    from "1.prems" run inr obtain q where q: "extractQuackID (feed ! nat (i - 1)) = Inr q"
      by (auto simp: display_loop.simps[of feed bound i] split: if_splits sum.splits)
    have up1: "[i - 1 .. bound - 1] = (i - 1) # [i .. bound - 1]"
      using run by (simp add: upto_rec1[of "i - 1"])
    show ?thesis
    proof (cases "bound - 5 \<ge> (i + 1) - 1")
      case True
      with "1.prems" run inr q
      have rec: "display_loop feed bound (i + 1) (ids @ [q]) oss = Done (i', ids', oss')"
        by (simp add: display_loop.simps[of feed bound i])
      have m: "max (i + 1) (bound - 4) = max i (bound - 4)" "max (i + 1) (bound + 1) = max i (bound + 1)"
        using True by simp_all
      from "1.IH"(1)[OF run inr q True rec] "1.prems"(2) q up1
      show ?thesis by (simp add: m)
    next
      case False
      with "1.prems" run inr q
      have rec: "display_loop feed bound (i + 1) (ids @ [q])
                   (oss @ [((i + 1) - 1, feed ! nat ((i + 1) - 2))]) = Done (i', ids', oss')"
        by (simp add: display_loop.simps[of feed bound i])
      have up2: "[i .. bound] = i # [i + 1 .. bound]"
        using run by (simp add: upto_rec1[of i])
      have m: "max (i + 1) (bound - 4) = i + 1" "max i (bound - 4) = i"
        "max (i + 1) (bound + 1) = max i (bound + 1)"
        using False run by simp_all
      from "1.IH"(2)[OF run inr q False rec] "1.prems"(2) q up1 up2
      show ?thesis by (simp add: m)
    qed
  qed
qed

text \<open>The loop ends without an exception on a feed whose ids fit.\<close>

lemma feed_ids_fit_nth:
  "feed_ids_fit feed \<Longrightarrow> n < length feed \<Longrightarrow> \<exists>q. extractQuackID (feed ! n) = Inr q"
  by (cases "extractQuackID (feed ! n)") (auto simp: feed_ids_fit_def list_all_length)

lemma display_loop_runs:
  "1 \<le> i \<Longrightarrow> bound \<le> int (length feed) \<Longrightarrow> feed_ids_fit feed \<Longrightarrow>
     \<exists>res. display_loop feed bound i ids oss = Done res"
proof (induction feed bound i ids oss rule: display_loop.induct)
  case (1 feed bound i ids oss)
  show ?case
  proof (cases "i - 1 < bound")
    case False
    then show ?thesis by (simp add: display_loop.simps[of feed bound i])
  next
    case True
    note run = True
    from "1.prems" run have inr: "\<not> (i - 1 < 0 \<or> int (length feed) \<le> i - 1)" by simp
    then have "nat (i - 1) < length feed" by linarith
    from feed_ids_fit_nth[OF "1.prems"(3) this]
    obtain q where q: "extractQuackID (feed ! nat (i - 1)) = Inr q" ..
    have i1: "1 \<le> i + 1" using "1.prems"(1) by simp
    show ?thesis
    proof (cases "bound - 5 \<ge> (i + 1) - 1")
      case True
      from "1.IH"(1)[OF run inr q True i1 "1.prems"(2,3)] run inr q True
      show ?thesis by (simp add: display_loop.simps[of feed bound i])
    next
      case False
      from "1.IH"(2)[OF run inr q False i1 "1.prems"(2,3)] run inr q False
      show ?thesis by (simp add: display_loop.simps[of feed bound i])
    qed
  qed
qed

lemma display_Done:
  assumes "display feed bound st = Done (rows, st')"
    and "row_i st = 1" and "feed_quack_ids st = []"
  shows "rows = map (\<lambda>k. (k, feed ! nat (k - 1))) [max 1 (bound - 4) .. bound]
     \<and> row_i st' = max 1 (bound + 1)
     \<and> map Inr (feed_quack_ids st') = map (\<lambda>k. extractQuackID (feed ! nat k)) [0 .. bound - 1]
     \<and> FeedDisplayCount st' = FeedDisplayCount st \<and> error st' = error st"
proof -
  from assms obtain i' ids' where
    loop: "display_loop feed bound 1 [] [] = Done (i', ids', rows)"
    and st': "st' = st\<lparr>row_i := i', feed_quack_ids := ids'\<rparr>"
    by (auto simp: display_def split: outcome.splits)
  from display_loop_Done[OF loop] st' show ?thesis by simp
qed

lemma display_runs:
  "row_i st = 1 \<Longrightarrow> bound \<le> int (length feed) \<Longrightarrow> feed_ids_fit feed \<Longrightarrow>
     \<exists>res. display feed bound st = Done res"
proof -
  assume a: "row_i st = 1" "bound \<le> int (length feed)" "feed_ids_fit feed"
  from display_loop_runs[OF _ a(2,3), of 1 "feed_quack_ids st" "[]"]
  obtain res where "display_loop feed bound 1 (feed_quack_ids st) [] = Done res" by auto
  with a(1) show ?thesis by (cases res) (simp add: display_def)
qed

text \<open>
  One redraw, in terms of \<open>b\<close>, the number of entries it goes through: the rows, the value
  left in \<open>i\<close>, the recorded ids, the count and the message.
\<close>

lemma processFeed_rows_Done:
  assumes "processFeed_rows feed st = Done (rows, st')"
  defines "n \<equiv> int (length feed)" and "c \<equiv> FeedDisplayCount st"
  defines "b \<equiv> max 0 (min c n)"
  shows "rows = map (\<lambda>k. (k, feed ! nat (k - 1))) [max 1 (b - 4) .. b]"
    and "row_i st' = b + 1"
    and "map Inr (feed_quack_ids st') = map (\<lambda>k. extractQuackID (feed ! nat k)) [0 .. b - 1]"
    and "FeedDisplayCount st' = (if c \<ge> n + 5 then c - 5 else max 0 c)"
    and "error st' = (if c \<ge> n + 5 then no_more_quacks else if c < 0 then already_none else error st)"
proof -
  let ?st1 = "st\<lparr>row_i := 1, feed_quack_ids := []\<rparr>"
  have fc: "FeedDisplayCount st = c" by (simp add: c_def)
  have all: "rows = map (\<lambda>k. (k, feed ! nat (k - 1))) [max 1 (b - 4) .. b]
     \<and> row_i st' = b + 1
     \<and> map Inr (feed_quack_ids st') = map (\<lambda>k. extractQuackID (feed ! nat k)) [0 .. b - 1]
     \<and> FeedDisplayCount st' = (if c \<ge> n + 5 then c - 5 else max 0 c)
     \<and> error st' = (if c \<ge> n + 5 then no_more_quacks else if c < 0 then already_none else error st)"
  proof (cases "c \<ge> n + 5")
    case True
    then have b: "b = n" by (simp add: b_def n_def)
    from assms(1) True
    have d: "display feed n (?st1\<lparr>error := no_more_quacks, FeedDisplayCount := max 0 (c - 5)\<rparr>) = Done (rows, st')"
      by (simp add: processFeed_rows_def Let_def n_def c_def)
    from display_Done[OF d] True show ?thesis by (simp add: b n_def fc)
  next
    case False
    note c1 = False
    show ?thesis
    proof (cases "c \<le> 0 \<and> \<not> (c \<ge> n \<and> c \<le> n + 4)")
      case True
      then have b: "b = 0" by (auto simp: b_def n_def)
      from assms(1) c1 True have "rows = []"
        and "st' = ?st1\<lparr>error := (if c \<noteq> 0 then already_none else error st), FeedDisplayCount := 0\<rparr>"
        by (auto simp: processFeed_rows_def Let_def n_def c_def)
      with True c1 show ?thesis by (auto simp: b)
    next
      case False
      with assms(1) c1 have d: "display feed (min c n) ?st1 = Done (rows, st')"
        by (auto simp: processFeed_rows_def Let_def n_def c_def split: if_splits)
      from False c1 have b: "b = min c n" "max 1 (min c n + 1) = min c n + 1" "\<not> c < 0" "max 0 c = c"
        by (auto simp: b_def n_def)
      from display_Done[OF d] c1 show ?thesis by (simp add: b fc)
    qed
  qed
  from all show "rows = map (\<lambda>k. (k, feed ! nat (k - 1))) [max 1 (b - 4) .. b]"
    and "row_i st' = b + 1"
    and "map Inr (feed_quack_ids st') = map (\<lambda>k. extractQuackID (feed ! nat k)) [0 .. b - 1]"
    and "FeedDisplayCount st' = (if c \<ge> n + 5 then c - 5 else max 0 c)"
    and "error st' = (if c \<ge> n + 5 then no_more_quacks else if c < 0 then already_none else error st)"
    by simp_all
qed

lemma processFeed_rows_runs:
  assumes "feed_ids_fit feed"
  shows "\<exists>rows st'. processFeed_rows feed st = Done (rows, st')"
proof -
  have "\<exists>res. processFeed_rows feed st = Done res"
    using display_runs[OF _ _ assms]
    by (simp add: processFeed_rows_def Let_def)
  then show ?thesis by auto
qed


lemma processFeed_Done_iff:
  "processFeed feed st = Done (out, st') \<longleftrightarrow>
     (\<exists>rows. processFeed_rows feed st = Done (rows, st') \<and> out = oss_str rows)"
  by (auto simp: processFeed_def split: outcome.splits)

lemma filter_upto_interval:
  "filter (\<lambda>k. lo < k \<and> k \<le> hi) [1 .. n] = [max 1 (lo + 1) .. min hi n]"
proof (rule sorted_distinct_set_unique)
  show "sorted (filter (\<lambda>k. lo < k \<and> k \<le> hi) [1 .. n])" by (rule sorted_wrt_filter) simp
  show "distinct (filter (\<lambda>k. lo < k \<and> k \<le> hi) [1 .. n])" by simp
  show "sorted [max 1 (lo + 1) .. min hi n]" by simp
  show "distinct [max 1 (lo + 1) .. min hi n]" by simp
  show "set (filter (\<lambda>k. lo < k \<and> k \<le> hi) [1 .. n]) = set [max 1 (lo + 1) .. min hi n]" by auto
qed

lemma sample_feed_length: "length sample_feed = 12"
  by (simp add: sample_feed_def)

lemma sample_feed_fit: "feed_ids_fit sample_feed"
  by code_simp







text \<open>
  Claim C2 as stated fails when the count is above the number of entries. With twelve
  entries and a count of 15 the redraw writes the rows 8 to 12, while the positions in
  \<open>(15 - 5, min(15, 12)]\<close> are 11 and 12.
\<close>

theorem visible_slice_counterexample:
  "shown_positions sample_feed (page_with 15) = [8, 9, 10, 11, 12]
   \<and> spec_visible_positions 15 (int (length sample_feed)) = [11, 12]"
  by code_simp

text \<open>
  Claim C2, amended. For a count above 0, the redraw returns the text of exactly the rows
  whose 1-based positions lie in \<open>(b - 5, b]\<close>, where \<open>b\<close> is the smaller of the count and
  the number of entries; each row carries its position and the entry at that position.
  These are at most 5 rows.
\<close>

theorem visible_slice_last_five_shown:
  assumes "feed_ids_fit feed" and "int32_redraw_safe feed st" and "0 < FeedDisplayCount st"
  shows "\<exists>st'. processFeed feed st =
           Done (oss_str (map (\<lambda>k. (k, feed ! nat (k - 1)))
                   (filter (\<lambda>k. min (FeedDisplayCount st) (int (length feed)) - 5 < k
                              \<and> k \<le> min (FeedDisplayCount st) (int (length feed)))
                      [1 .. int (length feed)])), st')
     \<and> length (filter (\<lambda>k. min (FeedDisplayCount st) (int (length feed)) - 5 < k
                              \<and> k \<le> min (FeedDisplayCount st) (int (length feed)))
                      [1 .. int (length feed)]) \<le> 5"
proof -
  let ?b = "min (FeedDisplayCount st) (int (length feed))"
  from processFeed_rows_runs[OF assms(1)] obtain rows st'
    where r: "processFeed_rows feed st = Done (rows, st')" by blast
  have b: "max 0 ?b = ?b" using assms(3) by simp
  have f: "filter (\<lambda>k. ?b - 5 < k \<and> k \<le> ?b) [1 .. int (length feed)] = [max 1 (?b - 4) .. ?b]"
    by (simp only: filter_upto_interval) simp
  from processFeed_rows_Done(1)[OF r]
  have rows: "rows = map (\<lambda>k. (k, feed ! nat (k - 1))) [max 1 (?b - 4) .. ?b]"
    by (simp only: b)
  have p: "processFeed feed st = Done (oss_str rows, st')"
    using r by (simp add: processFeed_def)
  have l: "length [max 1 (?b - 4) .. ?b] \<le> 5" by simp
  from p rows f l show ?thesis by (simp only:) blast
qed

text \<open>Twelve entries and a count of 15: the rows 8 to 12.\<close>

theorem visible_slice_last_five_shown_witness:
  "feed_ids_fit sample_feed \<and> int32_redraw_safe sample_feed (page_with 15)
   \<and> 0 < FeedDisplayCount (page_with 15)
   \<and> (\<exists>st'. processFeed sample_feed (page_with 15) =
           Done (oss_str (map (\<lambda>k. (k, sample_feed ! nat (k - 1))) [8, 9, 10, 11, 12]), st'))"
proof -
  have safe: "int32_redraw_safe sample_feed (page_with 15)"
    by (simp add: int32_redraw_safe_def sample_feed_length page_with_def INT32_MAX_def INT32_MIN_def)
  have pos: "0 < FeedDisplayCount (page_with 15)" by (simp add: page_with_def)
  have f: "filter (\<lambda>k. min (FeedDisplayCount (page_with 15)) (int (length sample_feed)) - 5 < k
                              \<and> k \<le> min (FeedDisplayCount (page_with 15)) (int (length sample_feed)))
                      [1 .. int (length sample_feed)] = [8, 9, 10, 11, 12]"
    by (simp add: sample_feed_length page_with_def upto.simps)
  from visible_slice_last_five_shown[OF sample_feed_fit safe pos] safe pos sample_feed_fit
  show ?thesis unfolding f by blast
qed

text \<open>
  A line that matches \<open>^[1-9]\d*$\<close> is read by \<open>std::stoi\<close> as its decimal value, which
  is at least 1, or raises \<open>std::out_of_range\<close>.
\<close>

lemma decimal_foldl_ge:
  "0 \<le> a \<Longrightarrow> list_all isdigit cs \<Longrightarrow>
     a \<le> foldl (\<lambda>a c. 10 * a + (int (of_char c) - 48)) a cs"
proof (induction cs arbitrary: a)
  case Nil
  then show ?case by simp
next
  case (Cons c cs)
  from Cons.prems have d: "0 \<le> int (of_char c) - 48" by (simp add: isdigit_def)
  with Cons.prems have "0 \<le> 10 * a + (int (of_char c) - 48)" by simp
  from Cons.IH[OF this] Cons.prems d show ?case by simp
qed

lemma positive_integer_stoi:
  assumes "positive_integer_regex input"
  shows "stoi input = (if INT32_MAX < decimal input then Inl Out_of_range else Inr (decimal input))"
    and "1 \<le> decimal input"
proof -
  from assms obtain c cs where input: "input = c # cs"
    and c: "c \<in> set ''123456789''" and cs: "list_all isdigit cs"
    by (cases input) (auto simp: positive_integer_regex_def)
  from c have nsp: "\<not> isspace c" and dig: "isdigit c" and nsign: "c \<noteq> CHR ''-''" "c \<noteq> CHR ''+''"
    and one: "1 \<le> int (of_char c) - 48"
    by (auto simp: isspace_def isdigit_def)
  from cs have tw: "takeWhile isdigit cs = cs"
    by (simp add: list_all_iff)
  have "1 \<le> 10 * 0 + (int (of_char c) - 48)" using one by simp
  moreover have "10 * 0 + (int (of_char c) - 48) \<le> decimal input"
    unfolding decimal_def input using decimal_foldl_ge[OF _ cs, of "10 * 0 + (int (of_char c) - 48)"] one
    by simp
  ultimately show pos: "1 \<le> decimal input" by simp
  then have "\<not> decimal input < INT32_MIN" by (simp add: INT32_MIN_def)
  with nsp dig nsign show "stoi input = (if INT32_MAX < decimal input then Inl Out_of_range else Inr (decimal input))"
    by (simp add: stoi_def input Let_def tw)
qed


text \<open>The id recorded at index \<open>j\<close> is the one extracted from \<open>feed[j]\<close>.\<close>

lemma recorded_id_nth:
  assumes "map Inr ids = map (\<lambda>k. extractQuackID (feed ! nat k)) [0 .. b - 1]"
    and "0 \<le> j" and "j < b"
  shows "int (length ids) = b" and "extractQuackID (feed ! nat j) = Inr (ids ! nat j)"
proof -
  from assms(1) have "length (map Inr ids :: (cpp_exception + int) list)
      = length (map (\<lambda>k. extractQuackID (feed ! nat k)) [0 .. b - 1])" by simp
  with assms(2,3) show len: "int (length ids) = b" by simp
  with assms(2,3) have n: "nat j < length ids" by linarith
  then have "(map Inr ids :: (cpp_exception + int) list) ! nat j = Inr (ids ! nat j)" by simp
  moreover have "map (\<lambda>k. extractQuackID (feed ! nat k)) [0 .. b - 1] ! nat j
      = extractQuackID (feed ! nat j)"
    using assms(2,3) by (simp add: nth_upto)
  ultimately show "extractQuackID (feed ! nat j) = Inr (ids ! nat j)"
    using assms(1) by simp
qed

text \<open>
  How a selection is resolved. After a redraw that wrote the rows \<open>rows\<close> (each row number once), a line of
  input that is a positive integer \<open>r\<close> is resolved through \<open>rows\<close>: when row \<open>r\<close> was
  written with the entry \<open>item\<close>, which is \<open>feed[r-1]\<close>, the selection opens the quack
  whose id was extracted from \<open>item\<close>; when no row \<open>r\<close> was written, the input is refused
  as invalid. The feeds are those whose ids fit an \<open>int\<close>, the states those on which the
  \<open>int32_t\<close> arithmetic does not overflow.
\<close>

lemma selection_reads_recorded_id:
  assumes "feed_ids_fit feed" and "int32_redraw_safe feed st"
  shows "\<exists>rows st'. processFeed_rows feed st = Done (rows, st')
     \<and> processFeed feed st = Done (oss_str rows, st')
     \<and> distinct (map fst rows)
     \<and> (\<forall>input r. positive_integer_regex input \<and> stoi input = Inr r \<longrightarrow>
          (case map_of rows r of
             None \<Rightarrow> select_tweet st' input = Done Input_invalid
           | Some item \<Rightarrow>
               item = feed ! nat (r - 1)
               \<and> (\<exists>q. extractQuackID item = Inr q
                      \<and> select_tweet st' input = Done (Quack_page q))))"
proof -
  from processFeed_rows_runs[OF assms(1)] obtain rows st'
    where run: "processFeed_rows feed st = Done (rows, st')" by blast
  define b where "b = max 0 (min (FeedDisplayCount st) (int (length feed)))"
  note facts = processFeed_rows_Done(1-3)[OF run, folded b_def]
  have rows: "rows = map (\<lambda>k. (k, feed ! nat (k - 1))) [max 1 (b - 4) .. b]" by (rule facts(1))
  have p: "processFeed feed st = Done (oss_str rows, st')"
    using run by (simp add: processFeed_def)
  have d: "distinct (map fst rows)" by (simp add: rows comp_def)
  have sel: "case map_of rows r of
             None \<Rightarrow> select_tweet st' input = Done Input_invalid
           | Some item \<Rightarrow>
               item = feed ! nat (r - 1)
               \<and> (\<exists>q. extractQuackID item = Inr q
                      \<and> select_tweet st' input = Done (Quack_page q))"
    if re: "positive_integer_regex input" and st: "stoi input = Inr r" for input r
  proof -
    from positive_integer_stoi[OF re] st have r1: "1 \<le> r"
      by (auto split: if_splits)
    from re have ne: "input \<noteq> []" by (auto simp: positive_integer_regex_def)
    have m: "map_of rows r = (if max 1 (b - 4) \<le> r \<and> r \<le> b then Some (feed ! nat (r - 1)) else None)"
      by (simp add: rows map_of_map_restrict restrict_map_def)
    show ?thesis
    proof (cases "max 1 (b - 4) \<le> r \<and> r \<le> b")
      case False
      with r1 have "r - 1 > row_i st' - 2 \<or> r - 1 < row_i st' - 6"
        by (auto simp: facts(2))
      with re st ne have "select_tweet st' input = Done Input_invalid"
        by (simp add: select_tweet_def Let_def)
      with m False show ?thesis by simp
    next
      case True
      then have rng: "\<not> (r - 1 > row_i st' - 2 \<or> r - 1 < row_i st' - 6)"
        by (auto simp: facts(2))
      from True r1 have j: "0 \<le> r - 1" "r - 1 < b" by simp_all
      note rec = recorded_id_nth[OF facts(3) j]
      from rec(1) j have inb: "\<not> (r - 1 < 0 \<or> int (length (feed_quack_ids st')) \<le> r - 1)"
        by simp
      from re st ne rng inb
      have "select_tweet st' input = Done (Quack_page (feed_quack_ids st' ! nat (r - 1)))"
        by (simp add: select_tweet_def Let_def)
      with rec(2) m True show ?thesis by simp
    qed
  qed
  from run p d sel show ?thesis by blast
qed

section \<open>Properties of the identifier allocator\<close>

text \<open>\<open>wrap32\<close> leaves a value in range alone and never yields more than \<open>INT32_MAX\<close>.\<close>

lemma wrap32_id: "INT32_MIN \<le> x \<Longrightarrow> x \<le> INT32_MAX \<Longrightarrow> wrap32 x = x"
  by (simp add: wrap32_def INT32_MIN_def INT32_MAX_def)

lemma wrap32_le_max: "wrap32 x \<le> INT32_MAX"
proof -
  have "(x + 2147483648) mod 4294967296 < 4294967296" by simp
  then show ?thesis by (simp add: wrap32_def INT32_MAX_def)
qed

lemma scan_up_le_max: "u \<le> INT32_MAX \<Longrightarrow> fst (scan_up rows u) \<le> INT32_MAX"
  by (induction rows arbitrary: u) (auto simp: Let_def wrap32_le_max)

text \<open>
  The first loop on ascending rows with a free identifier at or above the candidate: it
  stops at the smallest identifier from the candidate on that is not among the rows.
\<close>

lemma scan_up_sorted:
  assumes "sorted rows"
    and "\<forall>x\<in>set rows. INT32_MIN \<le> x \<and> x \<le> INT32_MAX"
    and "1 \<le> u"
    and "\<exists>k. u \<le> k \<and> k \<le> INT32_MAX \<and> k \<notin> set rows"
  shows "u \<le> fst (scan_up rows u) \<and> fst (scan_up rows u) \<le> INT32_MAX
     \<and> fst (scan_up rows u) \<notin> set rows
     \<and> (\<forall>k. u \<le> k \<and> k < fst (scan_up rows u) \<longrightarrow> k \<in> set rows)"
  using assms
proof (induction rows arbitrary: u)
  case Nil
  then show ?case by auto
next
  case (Cons row rows)
  from Cons.prems(2) have col: "sqlite3_column_int row = row"
    by (simp add: sqlite3_column_int_def wrap32_id)
  from Cons.prems(1) have srt: "sorted rows" and ge: "\<forall>x\<in>set rows. row \<le> x" by auto
  from Cons.prems(2) have rng: "\<forall>x\<in>set rows. INT32_MIN \<le> x \<and> x \<le> INT32_MAX" by simp
  from Cons.prems(4) obtain k where k: "u \<le> k" "k \<le> INT32_MAX" "k \<noteq> row" "k \<notin> set rows"
    by auto
  consider (eq) "row = u" | (gt) "row > u" | (lt) "row < u" by linarith
  then show ?case
  proof cases
    case eq
    with k have u1: "u + 1 \<le> INT32_MAX" "u + 1 \<le> k" by simp_all
    with Cons.prems(3) have w: "wrap32 (u + 1) = u + 1"
      by (simp add: wrap32_id INT32_MIN_def)
    have "\<exists>k. u + 1 \<le> k \<and> k \<le> INT32_MAX \<and> k \<notin> set rows" using k u1 by blast
    from Cons.IH[OF srt rng _ this] Cons.prems(3)
    have ih: "u + 1 \<le> fst (scan_up rows (u + 1))" "fst (scan_up rows (u + 1)) \<le> INT32_MAX"
      "fst (scan_up rows (u + 1)) \<notin> set rows"
      "\<forall>k. u + 1 \<le> k \<and> k < fst (scan_up rows (u + 1)) \<longrightarrow> k \<in> set rows"
      by simp_all
    have s: "scan_up (row # rows) u = scan_up rows (u + 1)"
      using eq col w by simp
    have cover: "k' \<in> set (row # rows)"
      if "u \<le> k'" and "k' < fst (scan_up rows (u + 1))" for k'
    proof (cases "k' = u")
      case True
      with eq show ?thesis by simp
    next
      case False
      with that have "u + 1 \<le> k'" by simp
      with ih(4) that(2) show ?thesis by simp
    qed
    from ih(1,3) eq have "fst (scan_up rows (u + 1)) \<notin> set (row # rows)" by auto
    with ih(1,2) cover show ?thesis unfolding s by auto
  next
    case gt
    then have s: "scan_up (row # rows) u = (u, True)" using col by simp
    from gt ge have "u \<notin> set (row # rows)" by auto
    with Cons.prems(3) gt k show ?thesis unfolding s by (auto simp: )
  next
    case lt
    then have s: "scan_up (row # rows) u = scan_up rows u" using col by simp
    have "\<exists>k. u \<le> k \<and> k \<le> INT32_MAX \<and> k \<notin> set rows" using k by blast
    from Cons.IH[OF srt rng Cons.prems(3) this] lt
    show ?thesis unfolding s by auto
  qed
qed


text \<open>The first loop on the rows \<open>u, u + 1, ..., INT32_MAX\<close>: the candidate wraps around.\<close>

lemma scan_up_dense:
  "1 \<le> u \<Longrightarrow> u \<le> INT32_MAX \<Longrightarrow> scan_up [u .. INT32_MAX] u = (INT32_MIN, False)"
proof (induction "nat (INT32_MAX - u)" arbitrary: u)
  case 0
  then have u: "u = INT32_MAX" by simp
  have "[INT32_MAX .. INT32_MAX] = [INT32_MAX]" by (simp add: upto.simps)
  moreover have "wrap32 (INT32_MAX + 1) = INT32_MIN"
    by (simp add: wrap32_def INT32_MAX_def INT32_MIN_def)
  moreover have "sqlite3_column_int INT32_MAX = INT32_MAX"
    by (simp add: sqlite3_column_int_def wrap32_id INT32_MIN_def INT32_MAX_def)
  ultimately show ?case by (simp add: u)
next
  case (Suc n)
  then have lt: "u < INT32_MAX" and n: "n = nat (INT32_MAX - (u + 1))" by simp_all
  have up: "[u .. INT32_MAX] = u # [u + 1 .. INT32_MAX]"
    using lt by (simp add: upto_rec1)
  have col: "sqlite3_column_int u = u"
    using Suc.prems by (simp add: sqlite3_column_int_def wrap32_id INT32_MIN_def)
  have w: "wrap32 (u + 1) = u + 1"
    using Suc.prems lt by (simp add: wrap32_id INT32_MIN_def)
  from Suc.hyps(1)[OF n] Suc.prems lt
  have "scan_up [u + 1 .. INT32_MAX] (u + 1) = (INT32_MIN, False)" by simp
  then show ?case by (simp add: up col w)
qed

text \<open>
  Claim C5 as stated fails: with the users 1, 2 and 4 the allocation yields 3, although 0
  is a non-negative integer that is not among them and is smaller.
\<close>

theorem allocate_counterexample:
  "allocate (db_with_users [1, 2, 4]) = (True, 3)
   \<and> (0::int) \<notin> set [1, 2, 4] \<and> (0::int) \<le> 0 \<and> (0::int) < 3"
  by code_simp

text \<open>
  Claim C5, amended. When the identifiers of the users are 32-bit values and some
  identifier from 1 to \<open>INT32_MAX\<close> is free, the allocation succeeds with the smallest
  integer from 1 on that is not the identifier of a user.
\<close>

theorem allocate_smallest_positive_free:
  assumes "\<forall>u\<in>set (users db). INT32_MIN \<le> usr u \<and> usr u \<le> INT32_MAX"
    and "\<exists>k. 1 \<le> k \<and> k \<le> INT32_MAX \<and> k \<notin> usr ` set (users db)"
  shows "\<exists>u. allocate db = (True, u) \<and> 1 \<le> u \<and> u \<notin> usr ` set (users db)
     \<and> (\<forall>k. 1 \<le> k \<and> k < u \<longrightarrow> k \<in> usr ` set (users db))"
proof -
  let ?rows = "select_usr_nonneg_asc db"
  have set_rows: "set ?rows = {x \<in> usr ` set (users db). 0 \<le> x}"
    by (auto simp: select_usr_nonneg_asc_def)
  have srt: "sorted ?rows" by (simp add: select_usr_nonneg_asc_def)
  have rng: "\<forall>x\<in>set ?rows. INT32_MIN \<le> x \<and> x \<le> INT32_MAX"
    using assms(1) by (auto simp: set_rows)
  from assms(2) have free: "\<exists>k. 1 \<le> k \<and> k \<le> INT32_MAX \<and> k \<notin> set ?rows"
    by (auto simp: set_rows)
  obtain u found where sc: "scan_up ?rows 1 = (u, found)" by (cases "scan_up ?rows 1")
  from scan_up_sorted[OF srt rng _ free] sc
  have u: "1 \<le> u" "u \<le> INT32_MAX" "u \<notin> set ?rows" "\<forall>k. 1 \<le> k \<and> k < u \<longrightarrow> k \<in> set ?rows"
    by simp_all
  from sc u(2) have "allocate db = (True, u)"
    by (simp add: allocate_def get_unique_user_id_def)
  moreover from u(1,3) have "u \<notin> usr ` set (users db)" by (auto simp: set_rows)
  moreover from u(4) have "\<forall>k. 1 \<le> k \<and> k < u \<longrightarrow> k \<in> usr ` set (users db)"
    by (auto simp: set_rows)
  ultimately show ?thesis using u(1) by blast
qed

text \<open>The examples of the specification: 1, 2, 4 yields 3; 1, 2, 3 yields 4; no user yields 1.\<close>

theorem allocate_smallest_positive_free_witness:
  "list_all (\<lambda>u. INT32_MIN \<le> usr u \<and> usr u \<le> INT32_MAX) (users (db_with_users [1, 2, 4]))
   \<and> (3::int) \<notin> usr ` set (users (db_with_users [1, 2, 4]))
   \<and> allocate (db_with_users [1, 2, 4]) = (True, 3)
   \<and> allocate (db_with_users [1, 2, 3]) = (True, 4)
   \<and> allocate (db_with_users []) = (True, 1)"
proof -
  have h1: "\<forall>u\<in>set (users (db_with_users [1, 2, 4])). INT32_MIN \<le> usr u \<and> usr u \<le> INT32_MAX"
    by (simp add: db_with_users_def INT32_MIN_def INT32_MAX_def)
  have s: "usr ` set (users (db_with_users [1, 2, 4])) = {1, 2, 4}"
    by (simp add: db_with_users_def)
  have h2: "\<exists>k. 1 \<le> k \<and> k \<le> INT32_MAX \<and> k \<notin> usr ` set (users (db_with_users [1, 2, 4]))"
    unfolding s by (rule exI[of _ 3]) (simp add: INT32_MAX_def)
  from allocate_smallest_positive_free[OF h1 h2] obtain u
    where a: "allocate (db_with_users [1, 2, 4]) = (True, u)" and u1: "1 \<le> u"
      and nin: "u \<notin> {1, 2, 4 :: int}" and below: "\<forall>k. 1 \<le> k \<and> k < u \<longrightarrow> k \<in> {1, 2, 4 :: int}"
    unfolding s by blast
  have "\<not> 3 < u"
  proof
    assume "3 < u"
    with below[rule_format, of 3] have "(3::int) \<in> {1, 2, 4}" by simp
    then show False by simp
  qed
  with u1 nin have "u = 3" by auto
  with a have a3: "allocate (db_with_users [1, 2, 4]) = (True, 3)" by simp
  have a4: "allocate (db_with_users [1, 2, 3]) = (True, 4)" by code_simp
  have a1: "allocate (db_with_users []) = (True, 1)" by code_simp
  from h1 s a3 a4 a1 show ?thesis by (simp add: list_all_iff)
qed

text \<open>
  Claim C6 at its failing input. Whatever rows the first statement yields, the function
  returns the candidate of the first loop: \<open>unique_id > INT32_MAX\<close> never holds for an
  \<open>int32_t\<close>, so the second statement is not run. When the rows are all identifiers from 1
  to \<open>INT32_MAX\<close>, the candidate has wrapped around and the function returns \<open>INT32_MIN\<close>.
\<close>

theorem negative_pool_never_scanned:
  "get_unique_user_id (Rows rows) query_neg = (True, fst (scan_up rows 1))
   \<and> get_unique_user_id (Rows [1 .. INT32_MAX]) query_neg = (True, INT32_MIN)"
proof -
  have le: "fst (scan_up rows' 1) \<le> INT32_MAX" for rows'
    by (rule scan_up_le_max) (simp add: INT32_MAX_def)
  have gen: "get_unique_user_id (Rows rows') query_neg = (True, fst (scan_up rows' 1))" for rows'
    using le[of rows'] by (cases "scan_up rows' 1") (simp add: get_unique_user_id_def)
  have "scan_up [1 .. INT32_MAX] 1 = (INT32_MIN, False)"
    by (rule scan_up_dense) (simp_all add: INT32_MAX_def)
  with gen[of "[1 .. INT32_MAX]"] gen[of rows] show ?thesis by simp
qed

section \<open>Properties of the feed\<close>

text \<open>Ordering keeps the rows and puts them in descending order of date, then time.\<close>

lemma order_by_set: "set (order_by_date_time_desc rows) = set rows"
  by (simp add: order_by_date_time_desc_def)

lemma order_by_distinct: "distinct (order_by_date_time_desc rows) = distinct rows"
  by (simp add: order_by_date_time_desc_def)

lemma order_by_sorted:
  "sorted_wrt (\<lambda>a b. e_date b < e_date a \<or> (e_date b = e_date a \<and> e_time b \<le> e_time a))
     (order_by_date_time_desc rows)"
proof -
  have "sorted (map (\<lambda>e. (e_date e, e_time e)) (sort_key (\<lambda>e. (e_date e, e_time e)) rows))"
    by (rule sorted_sort_key)
  then have "sorted_wrt (\<lambda>a b. (e_date a, e_time a) \<le> (e_date b, e_time b))
               (sort_key (\<lambda>e. (e_date e, e_time e)) rows)"
    by (simp add: sorted_map)
  then have "sorted_wrt (\<lambda>a b. (e_date b, e_time b) \<le> (e_date a, e_time a))
               (order_by_date_time_desc rows)"
    by (simp add: order_by_date_time_desc_def sorted_wrt_rev)
  then show ?thesis
    by (rule sorted_wrt_mono_rel[rotated]) (auto simp: less_eq_prod_def)
qed

lemma feed_statement_set:
  "set (feed_statement db v) = set (select_tweets db v) \<union> set (select_retweets db v)"
  by (simp add: feed_statement_def order_by_set)

lemma select_tweets_type: "e \<in> set (select_tweets db v) \<Longrightarrow> e_type e = ''tweet''"
  by (auto simp: select_tweets_def split: if_splits)

text \<open>Membership in the two halves of the statement, read off the joins.\<close>

lemma mem_concat_map: "e \<in> set (concat (map f xs)) \<longleftrightarrow> (\<exists>x\<in>set xs. e \<in> set (f x))"
  by auto

lemma mem_if_nil: "e \<in> set (if c then ys else []) \<longleftrightarrow> (c \<and> e \<in> set ys)"
  by simp

lemma mem_single: "e \<in> set [x] \<longleftrightarrow> e = x"
  by simp

lemma select_retweets_iff:
  "e \<in> set (select_retweets db v) \<longleftrightarrow>
     (\<exists>r\<in>set (retweets db). \<exists>t\<in>set (tweets db). \<exists>f\<in>set (follows db). \<exists>u\<in>set (users db).
        tid t = rtid r \<and> retweeter_id r = flwee f \<and> retweeter_id r = usr u
        \<and> flwer f = v \<and> spam r = 0
        \<and> e = \<lparr>e_type = ''retweet'', e_tid = tid t, e_name = uname u,
                e_writer_id = retweeter_id r, e_date = rdate r, e_time = ttime t,
                e_text = ttext t\<rparr>)"
  unfolding select_retweets_def
  by (simp only: mem_concat_map mem_if_nil mem_single) blast

lemma select_tweets_iff:
  "e \<in> set (select_tweets db v) \<longleftrightarrow>
     (\<exists>t\<in>set (tweets db). \<exists>f\<in>set (follows db). \<exists>u\<in>set (users db).
        writer_id t = flwee f \<and> writer_id t = usr u \<and> flwer f = v
        \<and> e = \<lparr>e_type = ''tweet'', e_tid = tid t, e_name = uname u,
                e_writer_id = writer_id t, e_date = tdate t, e_time = ttime t,
                e_text = ttext t\<rparr>)"
  unfolding select_tweets_def
  by (simp only: mem_concat_map mem_if_nil mem_single) blast

text \<open>Retweets flagged as spam contribute no row.\<close>

lemma concat_map_filter_nil:
  "(\<And>x. \<not> P x \<Longrightarrow> g x = []) \<Longrightarrow> concat (map g (filter P xs)) = concat (map g xs)"
  by (induction xs) auto

lemma nil_if_no_mem: "(\<And>e. e \<notin> set xs) \<Longrightarrow> xs = []"
  by (cases xs) auto

lemma select_retweets_drop_spam:
  "select_retweets (db\<lparr>retweets := filter (\<lambda>r. spam r = 0) (retweets db)\<rparr>) v = select_retweets db v"
  unfolding select_retweets_def
  by (simp cong: if_cong, rule concat_map_filter_nil, rule nil_if_no_mem,
      simp only: mem_concat_map mem_if_nil mem_single, blast)

lemma select_tweets_ignores_retweets:
  "select_tweets (db\<lparr>retweets := rs\<rparr>) v = select_tweets db v"
  by (simp add: select_tweets_def cong: if_cong)


lemma sample_feed_statement:
  "feed_statement sample_db 1 = [sample_retweet_row, sample_tweet_row]"
  by code_simp

text \<open>
  Claim C7 as stated fails for the time. On \<open>sample_db\<close> the row of the retweet carries
  the date of the retweet, 2024-01-03, and the time 10:00:00 of the tweet written the day
  before. Changing only the time of the tweet, with the retweets untouched, changes the
  time of the retweet's row.
\<close>

theorem repost_time_counterexample:
  "retweets sample_db_later = retweets sample_db
   \<and> map ttime (tweets sample_db) = [Some ''10:00:00'']
   \<and> map ttime (tweets sample_db_later) = [Some ''23:59:59'']
   \<and> feed_statement sample_db 1 =
       [\<lparr>e_type = ''retweet'', e_tid = 10, e_name = Some ''cy'', e_writer_id = 3,
          e_date = Some ''2024-01-03'', e_time = Some ''10:00:00'', e_text = Some ''hello''\<rparr>,
        \<lparr>e_type = ''tweet'', e_tid = 10, e_name = Some ''bob'', e_writer_id = 2,
          e_date = Some ''2024-01-02'', e_time = Some ''10:00:00'', e_text = Some ''hello''\<rparr>]
   \<and> feed_statement sample_db_later 1 =
       [\<lparr>e_type = ''retweet'', e_tid = 10, e_name = Some ''cy'', e_writer_id = 3,
          e_date = Some ''2024-01-03'', e_time = Some ''23:59:59'', e_text = Some ''hello''\<rparr>,
        \<lparr>e_type = ''tweet'', e_tid = 10, e_name = Some ''bob'', e_writer_id = 2,
          e_date = Some ''2024-01-02'', e_time = Some ''23:59:59'', e_text = Some ''hello''\<rparr>]"
  by code_simp

text \<open>
  Claim C7, amended. The rows of kind retweet in the feed of a follower are exactly those
  built from a retweet that is not flagged as spam, its tweet, a follow of the retweeter
  by the follower and the retweeter's user row: they carry the text and the id of the
  tweet, the id and the name of the retweeter, the date of the retweet, and the time of
  the tweet.
\<close>

theorem repost_row_fields:
  "e \<in> set (feed_statement db v) \<and> e_type e = ''retweet'' \<longleftrightarrow>
     (\<exists>r\<in>set (retweets db). \<exists>t\<in>set (tweets db). \<exists>f\<in>set (follows db). \<exists>u\<in>set (users db).
        tid t = rtid r \<and> retweeter_id r = flwee f \<and> retweeter_id r = usr u
        \<and> flwer f = v \<and> spam r = 0
        \<and> e = \<lparr>e_type = ''retweet'', e_tid = tid t, e_name = uname u,
                e_writer_id = retweeter_id r, e_date = rdate r, e_time = ttime t,
                e_text = ttext t\<rparr>)"
proof -
  have "e \<in> set (feed_statement db v) \<and> e_type e = ''retweet'' \<longleftrightarrow> e \<in> set (select_retweets db v)"
    using select_tweets_type[of e db v]
    by (auto simp: feed_statement_set select_retweets_iff)
  then show ?thesis by (simp only: select_retweets_iff)
qed

text \<open>
  \<open>Pond::getFeed\<close> returns the texts of the rows of the statement, in the order of the
  statement, when every name leaves room for the padding; otherwise it raises
  \<open>std::length_error\<close>.
\<close>

lemma feed_line_fits: "name_fits e \<Longrightarrow> \<exists>line. feed_line e = Done line"
  by (simp add: feed_line_def name_fits_def Let_def)

lemma feed_line_overlong: "\<not> name_fits e \<Longrightarrow> feed_line e = Throws Length_error"
  by (simp add: feed_line_def name_fits_def Let_def)

lemma feed_lines_Done:
  "list_all name_fits rows \<Longrightarrow>
     \<exists>ls. feed_lines rows acc = Done (acc @ ls) \<and> map Done ls = map feed_line rows"
proof (induction rows arbitrary: acc)
  case Nil
  then show ?case by simp
next
  case (Cons e es)
  from Cons.prems feed_line_fits[of e] obtain line where line: "feed_line e = Done line"
    by auto
  from Cons.prems have "list_all name_fits es" by simp
  from Cons.IH[OF this, of "acc @ [line]"] obtain ls
    where "feed_lines es (acc @ [line]) = Done ((acc @ [line]) @ ls)"
      and "map Done ls = map feed_line es" by blast
  with line show ?case
    by (intro exI[of _ "line # ls"]) simp
qed

lemma feed_lines_Throws:
  "\<not> list_all name_fits rows \<Longrightarrow> feed_lines rows acc = Throws Length_error"
proof (induction rows arbitrary: acc)
  case Nil
  then show ?case by simp
next
  case (Cons e es)
  show ?case
  proof (cases "name_fits e")
    case False
    then show ?thesis by (simp add: feed_line_overlong)
  next
    case True
    with feed_line_fits[of e] obtain line where line: "feed_line e = Done line" by auto
    from True Cons.prems have "\<not> list_all name_fits es" by simp
    from Cons.IH[OF this, of "acc @ [line]"] line show ?thesis by simp
  qed
qed

text \<open>The feed of user 1 on \<open>sample_db\<close>.\<close>

lemma sample_feed_of:
  "feed_of sample_db 1 = Done [sample_retweet_line, sample_tweet_line]"
  by code_simp

text \<open>
  Claim C8. When no name in the rows is longer than 80 bytes, \<open>Pond::getFeed\<close> returns one
  text per row of the statement, in the order of the statement; otherwise it raises
  \<open>std::length_error\<close> and returns no feed. The rows of the statement are in descending
  order of date, then time, and are those of the tweets and of the retweets put together,
  each once. So when one row has a later date than another, its text comes before the
  other's in the feed that \<open>Pond::getFeed\<close> returns.
\<close>

theorem feed_ordered_by_date_time_desc:
  "(list_all name_fits (feed_statement db v) \<longrightarrow>
      (\<exists>ls. feed_of db v = Done ls
         \<and> map Done ls = map feed_line (feed_statement db v)
         \<and> (\<forall>a b. a \<in> set (select_tweets db v @ select_retweets db v)
                \<and> b \<in> set (select_tweets db v @ select_retweets db v)
                \<and> e_date a < e_date b \<longrightarrow>
              (\<exists>i j. i < j \<and> j < length ls
                 \<and> feed_line b = Done (ls ! i) \<and> feed_line a = Done (ls ! j)))))
   \<and> (\<not> list_all name_fits (feed_statement db v) \<longrightarrow> feed_of db v = Throws Length_error)
   \<and> sorted_wrt (\<lambda>a b. e_date b < e_date a \<or> (e_date b = e_date a \<and> e_time b \<le> e_time a))
        (feed_statement db v)
   \<and> set (feed_statement db v) = set (select_tweets db v @ select_retweets db v)
   \<and> distinct (feed_statement db v)
   \<and> (\<forall>a b. a \<in> set (select_tweets db v @ select_retweets db v)
          \<and> b \<in> set (select_tweets db v @ select_retweets db v) \<and> e_date a < e_date b \<longrightarrow>
        (\<exists>i j. i < j \<and> j < length (feed_statement db v)
           \<and> feed_statement db v ! i = b \<and> feed_statement db v ! j = a))"
proof -
  let ?feed = "feed_statement db v"
  let ?le = "\<lambda>a b. e_date b < e_date a \<or> (e_date b = e_date a \<and> e_time b \<le> e_time a)"
  have srt: "sorted_wrt ?le ?feed"
    unfolding feed_statement_def by (rule order_by_sorted)
  have st: "set ?feed = set (select_tweets db v @ select_retweets db v)"
    by (simp add: feed_statement_set)
  have ds: "distinct ?feed"
    by (simp add: feed_statement_def order_by_distinct)
  have pos: "\<exists>i j. i < j \<and> j < length ?feed \<and> ?feed ! i = b \<and> ?feed ! j = a"
    if a: "a \<in> set (select_tweets db v @ select_retweets db v)"
      and b: "b \<in> set (select_tweets db v @ select_retweets db v)"
      and lt: "e_date a < e_date b" for a b
  proof -
    from a st have "a \<in> set ?feed" by (simp only:)
    then obtain j where j: "j < length ?feed" "?feed ! j = a"
      unfolding in_set_conv_nth by blast
    from b st have "b \<in> set ?feed" by (simp only:)
    then obtain i where i: "i < length ?feed" "?feed ! i = b"
      unfolding in_set_conv_nth by blast
    have "i \<noteq> j" using i j lt by auto
    moreover have "\<not> j < i"
    proof
      assume "j < i"
      from sorted_wrt_nth_less[OF srt this i(1)] i(2) j(2) lt
      show False by auto
    qed
    ultimately have "i < j" by simp
    with i j show ?thesis by blast
  qed
  have thr: "feed_of db v = Throws Length_error" if "\<not> list_all name_fits ?feed"
    using feed_lines_Throws[OF that, of "[]"] by (simp add: feed_of_def getFeed_def)
  have ret: "\<exists>ls. feed_of db v = Done ls
         \<and> map Done ls = map feed_line ?feed
         \<and> (\<forall>a b. a \<in> set (select_tweets db v @ select_retweets db v)
                \<and> b \<in> set (select_tweets db v @ select_retweets db v)
                \<and> e_date a < e_date b \<longrightarrow>
              (\<exists>i j. i < j \<and> j < length ls
                 \<and> feed_line b = Done (ls ! i) \<and> feed_line a = Done (ls ! j)))"
    if fits: "list_all name_fits ?feed"
  proof -
    from feed_lines_Done[OF fits, of "[]"] obtain ls
      where run: "feed_of db v = Done ls" and lines: "map Done ls = map feed_line ?feed"
      by (auto simp: feed_of_def getFeed_def)
    from lines have len: "length ls = length ?feed"
      by (metis length_map)
    have nth: "feed_line (?feed ! k) = Done (ls ! k)" if "k < length ?feed" for k
    proof -
      from that len have "map Done ls ! k = Done (ls ! k)" by simp
      moreover from that have "map feed_line ?feed ! k = feed_line (?feed ! k)" by simp
      ultimately show ?thesis using lines by simp
    qed
    have "\<exists>i j. i < j \<and> j < length ls \<and> feed_line b = Done (ls ! i) \<and> feed_line a = Done (ls ! j)"
      if "a \<in> set (select_tweets db v @ select_retweets db v)"
        and "b \<in> set (select_tweets db v @ select_retweets db v)"
        and "e_date a < e_date b" for a b
    proof -
      from pos[OF that] obtain i j where ij: "i < j" "j < length ?feed"
        and b: "?feed ! i = b" and a: "?feed ! j = a" by blast
      from ij have "i < length ?feed" by simp
      from nth[OF this] nth[OF ij(2)] a b ij len show ?thesis by auto
    qed
    with run lines show ?thesis by blast
  qed
  from ret thr srt st ds pos show ?thesis by blast
qed

text \<open>
  The example of the specification: a tweet at (2024-01-02, 10:00:00) in one half and a
  retweet at (2024-01-03, 10:00:00) in the other; \<open>Pond::getFeed\<close> returns the text of the
  retweet first.
\<close>

theorem feed_ordered_by_date_time_desc_witness:
  "list_all name_fits (feed_statement sample_db 1)
   \<and> sample_tweet_row \<in> set (select_tweets sample_db 1 @ select_retweets sample_db 1)
   \<and> sample_retweet_row \<in> set (select_tweets sample_db 1 @ select_retweets sample_db 1)
   \<and> e_date sample_tweet_row = Some ''2024-01-02'' \<and> e_time sample_tweet_row = Some ''10:00:00''
   \<and> e_date sample_retweet_row = Some ''2024-01-03'' \<and> e_time sample_retweet_row = Some ''10:00:00''
   \<and> e_date sample_tweet_row < e_date sample_retweet_row
   \<and> feed_line sample_retweet_row = Done sample_retweet_line
   \<and> feed_line sample_tweet_row = Done sample_tweet_line
   \<and> (\<exists>ls i j. feed_of sample_db 1 = Done ls \<and> i < j \<and> j < length ls
         \<and> ls ! i = sample_retweet_line \<and> ls ! j = sample_tweet_line)
   \<and> feed_of sample_db 1 = Done [sample_retweet_line, sample_tweet_line]
   \<and> feed_statement sample_db 1 = [sample_retweet_row, sample_tweet_row]"
proof -
  have fits: "list_all name_fits (feed_statement sample_db 1)"
    by code_simp
  have a: "sample_tweet_row \<in> set (select_tweets sample_db 1 @ select_retweets sample_db 1)"
    by code_simp
  have b: "sample_retweet_row \<in> set (select_tweets sample_db 1 @ select_retweets sample_db 1)"
    by code_simp
  have lt: "e_date sample_tweet_row < e_date sample_retweet_row"
    by code_simp
  have f: "e_date sample_tweet_row = Some ''2024-01-02''" "e_time sample_tweet_row = Some ''10:00:00''"
    "e_date sample_retweet_row = Some ''2024-01-03''" "e_time sample_retweet_row = Some ''10:00:00''"
    by (simp_all add: sample_tweet_row_def sample_retweet_row_def)
  have l: "feed_line sample_retweet_row = Done sample_retweet_line"
    "feed_line sample_tweet_row = Done sample_tweet_line"
    by code_simp+
  from feed_ordered_by_date_time_desc[of sample_db 1] fits a b lt
  obtain ls i j where run: "feed_of sample_db 1 = Done ls" and ij: "i < j" "j < length ls"
    and li: "feed_line sample_retweet_row = Done (ls ! i)"
    and lj: "feed_line sample_tweet_row = Done (ls ! j)"
    by blast
  from li lj l have "ls ! i = sample_retweet_line" "ls ! j = sample_tweet_line" by simp_all
  with run ij have "\<exists>ls i j. feed_of sample_db 1 = Done ls \<and> i < j \<and> j < length ls
         \<and> ls ! i = sample_retweet_line \<and> ls ! j = sample_tweet_line" by blast
  with fits a b lt f l sample_feed_of sample_feed_statement show ?thesis by simp
qed

text \<open>
  Claim C9. Every row of kind retweet in the feed of any follower, on any database, comes
  from a retweet whose spam flag is 0; and the feed is the same as on the database
  without the retweets whose spam flag is not 0.
\<close>

theorem spam_retweets_excluded:
  "(\<forall>e\<in>set (feed_statement db v). e_type e = ''retweet'' \<longrightarrow>
      (\<exists>r\<in>set (retweets db). spam r = 0 \<and> rtid r = e_tid e
         \<and> retweeter_id r = e_writer_id e \<and> rdate r = e_date e))
   \<and> feed_statement (db\<lparr>retweets := filter (\<lambda>r. spam r = 0) (retweets db)\<rparr>) v
       = feed_statement db v"
proof -
  have "\<exists>r\<in>set (retweets db). spam r = 0 \<and> rtid r = e_tid e
         \<and> retweeter_id r = e_writer_id e \<and> rdate r = e_date e"
    if "e \<in> set (feed_statement db v)" and "e_type e = ''retweet''" for e
  proof -
    from that select_tweets_type[of e db v] have "e \<in> set (select_retweets db v)"
      by (auto simp: feed_statement_set)
    then show ?thesis by (auto simp: select_retweets_iff)
  qed
  moreover have "feed_statement (db\<lparr>retweets := filter (\<lambda>r. spam r = 0) (retweets db)\<rparr>) v
       = feed_statement db v"
    by (simp only: feed_statement_def select_retweets_drop_spam select_tweets_ignores_retweets)
  ultimately show ?thesis by blast
qed

text \<open>
  On \<open>sample_db\<close> user 1 follows both retweeters; the retweet with flag 0 is in the feed,
  the one with flag 1 is not.
\<close>

theorem spam_retweets_excluded_witness:
  "sample_retweet_row \<in> set (feed_statement sample_db 1)
   \<and> e_type sample_retweet_row = ''retweet''
   \<and> (\<exists>r\<in>set (retweets sample_db). spam r = 0 \<and> rtid r = e_tid sample_retweet_row
         \<and> retweeter_id r = e_writer_id sample_retweet_row \<and> rdate r = e_date sample_retweet_row)
   \<and> map spam (retweets sample_db) = [0, 1]
   \<and> feed_statement sample_db 1 = [sample_retweet_row, sample_tweet_row]"
proof -
  have m: "sample_retweet_row \<in> set (feed_statement sample_db 1)"
    by (simp add: sample_feed_statement)
  have t: "e_type sample_retweet_row = ''retweet''"
    by (simp add: sample_retweet_row_def)
  have s: "map spam (retweets sample_db) = [0, 1]"
    by (simp add: sample_db_def)
  from spam_retweets_excluded[of sample_db 1] m t
  have "\<exists>r\<in>set (retweets sample_db). spam r = 0 \<and> rtid r = e_tid sample_retweet_row
         \<and> retweeter_id r = e_writer_id sample_retweet_row \<and> rdate r = e_date sample_retweet_row"
    by blast
  with m t s sample_feed_statement show ?thesis by simp
qed

section \<open>The selection on the feed that \<open>Pond::getFeed\<close> builds\<close>

text \<open>
  Claim C1 at its failing input. On \<open>sample_db\<close>, for user 1 and the initial count 5, the
  redraw writes the texts of the retweet and of the tweet of quack 10 as rows 1 and 2.
  \<open>Pond::getFeed\<close> starts each text with the name, never with \<open>"Quack Id: "\<close>, so the id
  recorded for each row is -1: the lines \<open>1\<close> and \<open>2\<close> both open the quack -1, not quack
  10. The line \<open>2147483648\<close> matches the pattern and is outside the rows written; it is
  not refused, \<open>std::stoi\<close> raises \<open>std::out_of_range\<close>. The line \<open>3\<close> is refused.
\<close>

theorem selection_opens_minus_one:
  "feed_statement sample_db 1 = [sample_retweet_row, sample_tweet_row]
   \<and> e_tid sample_retweet_row = 10 \<and> e_tid sample_tweet_row = 10
   \<and> processFeed_from sample_db 1 (page_with 5) =
        Done ([(1, sample_retweet_line), (2, sample_tweet_line)],
              \<lparr>FeedDisplayCount = 5, error = [], row_i = 3, feed_quack_ids = [- 1, - 1]\<rparr>)
   \<and> select_after_redraw sample_db 1 (page_with 5) ''1'' = Done (Quack_page (- 1))
   \<and> select_after_redraw sample_db 1 (page_with 5) ''2'' = Done (Quack_page (- 1))
   \<and> positive_integer_regex ''2147483648''
   \<and> select_after_redraw sample_db 1 (page_with 5) ''2147483648'' = Throws Out_of_range
   \<and> select_after_redraw sample_db 1 (page_with 5) ''3'' = Done Input_invalid"
  by code_simp

section \<open>Properties of the timestamp formatters\<close>

text \<open>The number of characters that the two formats expand to.\<close>

lemma string_of_nat_length_digit: "n < 10 \<Longrightarrow> length (string_of_nat n) = 1"
  by (simp add: string_of_nat.simps[of n])

lemma string_of_nat_length_step:
  "10 \<le> n \<Longrightarrow> length (string_of_nat n) = length (string_of_nat (n div 10)) + 1"
  by (simp add: string_of_nat.simps[of n])

lemma string_of_nat_length_pos: "1 \<le> length (string_of_nat n)"
  by (cases "n < 10") (simp_all add: string_of_nat_length_digit string_of_nat_length_step)

lemma two_digits_length: "0 \<le> n \<Longrightarrow> n \<le> 99 \<Longrightarrow> length (two_digits n) = 2"
proof (cases "n < 10")
  case True
  assume "0 \<le> n"
  with True show ?thesis
    by (simp add: two_digits_def string_of_int_def string_of_nat_length_digit)
next
  case False
  assume "0 \<le> n" "n \<le> 99"
  with False have "10 \<le> nat n" "nat n div 10 < 10" by simp_all
  with False \<open>0 \<le> n\<close> show ?thesis
    by (simp add: two_digits_def string_of_int_def string_of_nat_length_step
        string_of_nat_length_digit)
qed

lemma year_length: "1000 \<le> n \<Longrightarrow> 4 \<le> length (string_of_nat n)"
proof -
  assume n: "1000 \<le> n"
  then have "10 \<le> n" "10 \<le> n div 10" "10 \<le> n div 10 div 10" by simp_all
  then have "length (string_of_nat n) = length (string_of_nat (n div 10 div 10 div 10)) + 3"
    by (simp add: string_of_nat_length_step)
  with string_of_nat_length_pos[of "n div 10 div 10 div 10"] show ?thesis by simp
qed

lemma year_length_4: "1000 \<le> n \<Longrightarrow> n \<le> 9999 \<Longrightarrow> length (string_of_nat n) = 4"
proof -
  assume n: "1000 \<le> n" "n \<le> 9999"
  then have "10 \<le> n" "10 \<le> n div 10" "10 \<le> n div 10 div 10" "n div 10 div 10 div 10 < 10"
    by simp_all
  then show ?thesis
    by (simp add: string_of_nat_length_step string_of_nat_length_digit)
qed

lemma format_HMS_length: "valid_tm gmt \<Longrightarrow> length (format_HMS gmt) = 8"
  by (simp add: valid_tm_def format_HMS_def two_digits_length)

lemma format_F_length: "valid_tm gmt \<Longrightarrow> 10 \<le> length (format_F gmt)"
proof -
  assume v: "valid_tm gmt"
  then have "1000 \<le> nat (1900 + tm_year gmt)" unfolding valid_tm_def by linarith
  from year_length[OF this] v show ?thesis
    by (simp add: valid_tm_def format_F_def two_digits_length string_of_int_def)
qed

lemma format_F_length_10:
  "valid_tm gmt \<Longrightarrow> tm_year gmt \<le> 8099 \<Longrightarrow> length (format_F gmt) = 10"
proof -
  assume v: "valid_tm gmt" and y: "tm_year gmt \<le> 8099"
  then have "1000 \<le> nat (1900 + tm_year gmt)" "nat (1900 + tm_year gmt) \<le> 9999"
    unfolding valid_tm_def by linarith+
  from year_length_4[OF this] v show ?thesis
    by (simp add: valid_tm_def format_F_def two_digits_length string_of_int_def)
qed

text \<open>
  Claim C10. \<open>_getTime\<close> and \<open>_getDate\<close> pass \<open>sizeof(t)\<close>, the size of a pointer, to
  \<open>strftime\<close>. For every time that \<open>gmtime\<close> can return and every pointer size up to 8
  bytes: \<open>"%H:%M:%S"\<close> needs 9 bytes with its terminator and \<open>"%F"\<close> at least 11, so both
  calls fail and leave the buffer indeterminate, and so are the date and time that
  \<open>addPost\<close> binds and the date that \<open>follow\<close> binds. With the sizes of the
  allocated buffers, 9 and 11, the strings would have been written.
\<close>

theorem formatters_write_nothing:
  assumes "valid_tm gmt" and "sizeof_ptr \<le> 8"
  shows "length (format_HMS gmt) + 1 = 9 \<and> 11 \<le> length (format_F gmt) + 1
     \<and> getTime sizeof_ptr gmt = Indeterminate
     \<and> getDate sizeof_ptr gmt = Indeterminate
     \<and> addPost_binds sizeof_ptr gmt tweet_id user_id quack_text
          = (tweet_id, user_id, quack_text, Indeterminate, Indeterminate)
     \<and> follow_binds sizeof_ptr gmt user_id follow_id = (user_id, follow_id, Indeterminate)
     \<and> strftime 9 (format_HMS gmt) = Written (format_HMS gmt)
     \<and> (tm_year gmt \<le> 8099 \<longrightarrow> strftime 11 (format_F gmt) = Written (format_F gmt))"
proof -
  note h = format_HMS_length[OF assms(1)]
  note f = format_F_length[OF assms(1)]
  have t: "getTime sizeof_ptr gmt = Indeterminate"
    using h assms(2) by (simp add: getTime_def strftime_def)
  have d: "getDate sizeof_ptr gmt = Indeterminate"
    using f assms(2) by (simp add: getDate_def strftime_def)
  have w: "strftime 9 (format_HMS gmt) = Written (format_HMS gmt)"
    using h by (simp add: strftime_def)
  have w': "tm_year gmt \<le> 8099 \<longrightarrow> strftime 11 (format_F gmt) = Written (format_F gmt)"
    using format_F_length_10[OF assms(1)] by (simp add: strftime_def)
  from h f t d w w' show ?thesis
    by (simp add: addPost_binds_def follow_binds_def)
qed

text \<open>A pointer of 8 bytes and the time 2024-11-05 12:34:56.\<close>

theorem formatters_write_nothing_witness:
  "valid_tm sample_tm \<and> format_HMS sample_tm = ''12:34:56'' \<and> format_F sample_tm = ''2024-11-05''
   \<and> getTime 8 sample_tm = Indeterminate \<and> getDate 8 sample_tm = Indeterminate
   \<and> addPost_binds 8 sample_tm 7 1 ''quack'' = (7, 1, ''quack'', Indeterminate, Indeterminate)
   \<and> follow_binds 8 sample_tm 1 2 = (1, 2, Indeterminate)"
proof -
  have v: "valid_tm sample_tm" by (simp add: valid_tm_def sample_tm_def)
  have e: "format_HMS sample_tm = ''12:34:56''" "format_F sample_tm = ''2024-11-05''"
    by code_simp+
  have p: "(8::nat) \<le> 8" by simp
  from formatters_write_nothing[OF v p, of 7 1 "''quack''" 2] v e
  show ?thesis by simp
qed

end
